theory Spec2Isabelle
  imports Complex_Main "HOL-Library.Multiset"
begin

section \<open>Python values used by the notebooks\<close>

text \<open>
  The two notebooks (\<^verbatim>\<open>day1_part1.ipynb\<close>, \<^verbatim>\<open>day1_part2.ipynb\<close>) are straight-line
  cells. Each cell is embedded as a function from the values it reads to the values it
  binds; an exception raised inside a cell is the \<open>Inl\<close> branch of the result.
\<close>

datatype error = IndexError | ValueError | TypeError | NotFittedError

subsection \<open>Binary64 numbers: \<^verbatim>\<open>len(y) * 0.7\<close> and \<^verbatim>\<open>int(...)\<close>\<close>

text \<open>
  A non-negative finite binary64 number is an integer significand times a power of two.
  Only products of a row count with a fraction below one occur, so neither overflow nor
  underflow is reachable and the exponent is left unbounded.
\<close>

record double =
  mant :: nat
  expo :: int

definition double_val :: "double \<Rightarrow> real" where
  "double_val d = real (mant d) * 2 powi expo d"

text \<open>\<^verbatim>\<open>int.bit_length\<close>.\<close>

fun bit_length :: "nat \<Rightarrow> nat" where
  "bit_length n = (if n = 0 then 0 else Suc (bit_length (n div 2)))"

declare bit_length.simps [simp del]

text \<open>
  Round-to-nearest, ties-to-even, to a 53-bit significand: the rounding of every binary64
  operation. \<open>N * 2 ^ e\<close> is the exact result.
\<close>

definition round_to_53 :: "nat \<Rightarrow> int \<Rightarrow> double" where
  "round_to_53 N e =
     (let b = bit_length N in
      if b \<le> 53 then \<lparr>mant = N, expo = e\<rparr>
      else
        let s = b - 53;
            q = N div 2 ^ s;
            r = N mod 2 ^ s;
            h = 2 ^ (s - 1);
            q' = (if h < r \<or> (r = h \<and> odd q) then q + 1 else q)
        in \<lparr>mant = q', expo = e + int s\<rparr>)"

text \<open>\<^verbatim>\<open>float(n)\<close>, the implicit conversion of the left operand of \<^verbatim>\<open>n * 0.7\<close>.\<close>

definition float_of_int :: "nat \<Rightarrow> double" where
  "float_of_int n = round_to_53 n 0"

text \<open>\<^verbatim>\<open>a * b\<close> on floats.\<close>

definition fmul :: "double \<Rightarrow> double \<Rightarrow> double" where
  "fmul a b = round_to_53 (mant a * mant b) (expo a + expo b)"

text \<open>\<^verbatim>\<open>int(x)\<close> on a non-negative float: truncation.\<close>

definition py_int :: "double \<Rightarrow> nat" where
  "py_int d =
     (if 0 \<le> expo d then mant d * 2 ^ nat (expo d)
      else mant d div 2 ^ nat (- expo d))"

text \<open>The literals \<^verbatim>\<open>0.7\<close> (\<^verbatim>\<open>0x1.6666666666666p-1\<close>) and \<^verbatim>\<open>0.8\<close> (\<^verbatim>\<open>0x1.999999999999ap-1\<close>).\<close>

definition lit_0_7 :: double where
  "lit_0_7 = \<lparr>mant = 6305039478318694, expo = - 53\<rparr>"

definition lit_0_8 :: double where
  "lit_0_8 = \<lparr>mant = 7205759403792794, expo = - 53\<rparr>"

text \<open>\<^verbatim>\<open>n_train = int(len(y) * 0.7)\<close> and \<^verbatim>\<open>n_train = int(n_train0 * 0.8)\<close>.\<close>

definition n_train_of :: "nat \<Rightarrow> double \<Rightarrow> nat" where
  "n_train_of n f = py_int (fmul (float_of_int n) f)"

text \<open>A fraction strictly between zero and one.\<close>

definition fraction :: "double \<Rightarrow> bool" where
  "fraction f \<longleftrightarrow> 0 < mant f \<and> expo f < 0 \<and> mant f < 2 ^ nat (- expo f)"

text \<open>
  \<^verbatim>\<open>round(x)\<close> on a non-negative float (nearest integer, ties to even). The notebooks never
  call it; it is the size the written contract of the Splitter names.
\<close>

definition py_round :: "double \<Rightarrow> nat" where
  "py_round d =
     (if 0 \<le> expo d then mant d * 2 ^ nat (expo d)
      else
        let k = nat (- expo d);
            q = mant d div 2 ^ k;
            r = mant d mod 2 ^ k;
            h = 2 ^ (k - 1)
        in if h < r \<or> (r = h \<and> odd q) then q + 1 else q)"

subsection \<open>The \<^verbatim>\<open>random\<close> module\<close>

text \<open>
  The generator behind \<^verbatim>\<open>random.seed\<close> and \<^verbatim>\<open>random.shuffle\<close> is a parameter: \<open>seed\<close>
  maps the seed to the generator state it installs, \<open>randbelow n\<close> draws a number and
  advances the state. The library promises \<open>randbelow n < n\<close> for \<open>0 < n\<close>.
\<close>

record 'g py_random =
  seed :: "int \<Rightarrow> 'g"
  randbelow :: "nat \<Rightarrow> 'g \<Rightarrow> nat \<times> 'g"

definition randbelow_ok :: "'g py_random \<Rightarrow> bool" where
  "randbelow_ok R = (\<forall>n g. 0 < n \<longrightarrow> fst (randbelow R n g) < n)"

text \<open>\<^verbatim>\<open>x[i], x[j] = x[j], x[i]\<close> on a one-dimensional array.\<close>

definition swap_items :: "'a list \<Rightarrow> nat \<Rightarrow> nat \<Rightarrow> error + 'a list" where
  "swap_items x i j =
     (if i < length x \<and> j < length x then Inr (x[i := x ! j, j := x ! i])
      else Inl IndexError)"

text \<open>
  \<^verbatim>\<open>
  for i in reversed(range(1, len(x))):
      j = randbelow(i+1)
      x[i], x[j] = x[j], x[i]
  \<close>
  \<open>shuffle_from rb i\<close> runs the iterations \<open>i, i - 1, \<dots>, 1\<close>.
\<close>

fun shuffle_from ::
  "(nat \<Rightarrow> 'g \<Rightarrow> nat \<times> 'g) \<Rightarrow> nat \<Rightarrow> 'g \<Rightarrow> 'a list \<Rightarrow> error + ('a list \<times> 'g)" where
  "shuffle_from rb 0 g x = Inr (x, g)"
| "shuffle_from rb (Suc k) g x =
     (case rb (Suc k + 1) g of (j, g') \<Rightarrow>
        (case swap_items x (Suc k) j of
           Inl e \<Rightarrow> Inl e
         | Inr x' \<Rightarrow> shuffle_from rb k g' x'))"

definition shuffle :: "'g py_random \<Rightarrow> 'g \<Rightarrow> 'a list \<Rightarrow> error + ('a list \<times> 'g)" where
  "shuffle R g x = shuffle_from (randbelow R) (length x - 1) g x"

section \<open>The Splitter\<close>

text \<open>
  \<^verbatim>\<open>
  random.seed(s)
  indices = np.arange(n)
  random.shuffle(indices)
  ... indices[:n_train] ... indices[n_train:] ...
  \<close>
  \<open>g0\<close> is the state of the module-level generator when the cell starts; \<^verbatim>\<open>random.seed\<close>
  overwrites it. The result is the shuffled \<open>indices\<close>, the two slices, and the state
  the generator is left in.
\<close>

record 'g split =
  indices :: "nat list"
  train_idx :: "nat list"
  test_idx :: "nat list"
  rng_state :: 'g

definition split_indices ::
  "'g py_random \<Rightarrow> int \<Rightarrow> double \<Rightarrow> nat \<Rightarrow> 'g \<Rightarrow> error + 'g split" where
  "split_indices R s f n g0 =
     (let n_train = n_train_of n f;
          g = seed R s
      in case shuffle R g [0..<n] of
           Inl e \<Rightarrow> Inl e
         | Inr (ix, g') \<Rightarrow>
             Inr \<lparr>indices = ix, train_idx = take n_train ix,
                  test_idx = drop n_train ix, rng_state = g'\<rparr>)"

text \<open>\<^verbatim>\<open>X[idx]\<close> with an index array: row \<open>k\<close> of the result is row \<open>idx[k]\<close> of \<open>X\<close>.\<close>

definition take_rows :: "'a list \<Rightarrow> nat list \<Rightarrow> error + 'a list" where
  "take_rows X idx =
     (if list_all (\<lambda>k. k < length X) idx then Inr (map (\<lambda>k. X ! k) idx)
      else Inl IndexError)"

text \<open>
  \<^verbatim>\<open>
  X_train0, X_test0 = X[indices[:n_train]], X[indices[n_train:]]
  y_train, y_test = y[indices[:n_train]], y[indices[n_train:]]
  \<close>
  Notebook 2 names the second partition \<^verbatim>\<open>X_valid\<close>, \<^verbatim>\<open>y_valid\<close>.
\<close>

record ('x, 'y, 'g) partition =
  perm :: "nat list"
  X_train :: "'x list"
  X_test :: "'x list"
  y_train :: "'y list"
  y_test :: "'y list"
  rng_after :: 'g

definition split_arrays ::
  "'g py_random \<Rightarrow> int \<Rightarrow> double \<Rightarrow> nat \<Rightarrow> 'g \<Rightarrow> 'x list \<Rightarrow> 'y list
     \<Rightarrow> error + ('x, 'y, 'g) partition" where
  "split_arrays R s f n g0 X y =
     (case split_indices R s f n g0 of
        Inl e \<Rightarrow> Inl e
      | Inr sp \<Rightarrow>
     (case take_rows X (train_idx sp) of
        Inl e \<Rightarrow> Inl e
      | Inr Xa \<Rightarrow>
     (case take_rows X (test_idx sp) of
        Inl e \<Rightarrow> Inl e
      | Inr Xb \<Rightarrow>
     (case take_rows y (train_idx sp) of
        Inl e \<Rightarrow> Inl e
      | Inr ya \<Rightarrow>
     (case take_rows y (test_idx sp) of
        Inl e \<Rightarrow> Inl e
      | Inr yb \<Rightarrow>
          Inr \<lparr>perm = indices sp, X_train = Xa, X_test = Xb,
               y_train = ya, y_test = yb, rng_after = rng_state sp\<rparr>)))))"

text \<open>The split cell of notebook 1: seed 1234, fraction 0.7, \<open>n = len(y)\<close>.\<close>

definition part1_split ::
  "'g py_random \<Rightarrow> 'g \<Rightarrow> 'x list \<Rightarrow> 'y list \<Rightarrow> error + ('x, 'y, 'g) partition" where
  "part1_split R g0 X y = split_arrays R 1234 lit_0_7 (length y) g0 X y"

text \<open>
  The split cell of notebook 2: \<^verbatim>\<open>n_train0 = 60000\<close>, seed 4826, fraction 0.8.
  \<^verbatim>\<open>train_images\<close> is a three-dimensional array, a list of images that are lists of
  rows. \<^verbatim>\<open>train_images.reshape((n_train0, 28 * 28))\<close> raises unless the array holds
  \<open>n_train0 * (28 * 28)\<close> elements; row \<open>i\<close> of the result is the \<open>i\<close>-th run of
  \<open>28 * 28\<close> elements in the order of the array. With images of 28 by 28 pixels, the
  shape in which the data set is loaded, each row of \<open>X\<close> is one flattened image. The
  element-wise \<^verbatim>\<open>astype('float32') / 255\<close> is the parameter \<open>cast\<close>.
\<close>

definition n_train0 :: nat where
  "n_train0 = 60000"

text \<open>An image of 28 by 28 pixels.\<close>

definition image_ok :: "'p list list \<Rightarrow> bool" where
  "image_ok im \<longleftrightarrow> length im = 28 \<and> list_all (\<lambda>r. length r = 28) im"

definition reshape_rows :: "nat \<Rightarrow> 'p list list list \<Rightarrow> error + 'p list list" where
  "reshape_rows n imgs =
     (let flat = concat (map concat imgs)
      in if length flat = n * (28 * 28)
         then Inr (map (\<lambda>i. take (28 * 28) (drop (i * (28 * 28)) flat)) [0..<n])
         else Inl ValueError)"

text \<open>
  Modelled from the spec: the one-hot encoding is Keras's and is missing from the
  sources. One row per label, with a one at the label's position.
\<close>

definition one_hot :: "nat \<Rightarrow> nat \<Rightarrow> real list" where
  "one_hot num_classes c = map (\<lambda>j. if j = c then 1 else 0) [0..<num_classes]"

text \<open>
  Modelled from the spec: \<^verbatim>\<open>to_categorical\<close> is Keras's and is missing from the sources.
  The notebook gives it the labels only, so the width is one more than the largest
  label (ten for the digits); an empty array raises.
\<close>

definition to_categorical :: "nat list \<Rightarrow> error + real list list" where
  "to_categorical y =
     (if y = [] then Inl ValueError
      else Inr (map (one_hot (Max (set y) + 1)) y))"

text \<open>
  \<^verbatim>\<open>
  X = train_images.reshape((n_train0, 28 * 28))
  X = X.astype('float32') / 255
  random.seed(4826)
  indices = np.arange(n_train0)
  random.shuffle(indices)
  n_train = int(n_train0 * 0.8)
  X_train, X_valid = X[indices[:n_train]], X[indices[n_train:]]
  y_train = to_categorical(train_labels[indices[:n_train]])
  y_valid = to_categorical(train_labels[indices[n_train:]])
  \<close>
\<close>

definition part2_split ::
  "'g py_random \<Rightarrow> 'g \<Rightarrow> ('p \<Rightarrow> 'v) \<Rightarrow> 'p list list list \<Rightarrow> nat list
     \<Rightarrow> error + ('v list, real list, 'g) partition" where
  "part2_split R g0 cast train_images train_labels =
     (case reshape_rows n_train0 train_images of
        Inl e \<Rightarrow> Inl e
      | Inr X0 \<Rightarrow>
     (case split_arrays R 4826 lit_0_8 n_train0 g0 (map (map cast) X0) train_labels of
        Inl e \<Rightarrow> Inl e
      | Inr p \<Rightarrow>
     (case to_categorical (y_train p) of
        Inl e \<Rightarrow> Inl e
      | Inr ya \<Rightarrow>
     (case to_categorical (y_test p) of
        Inl e \<Rightarrow> Inl e
      | Inr yb \<Rightarrow>
          Inr \<lparr>perm = perm p, X_train = X_train p, X_test = X_test p,
               y_train = ya, y_test = yb, rng_after = rng_after p\<rparr>))))"

text \<open>A generator that counts, to run the cells on concrete inputs.\<close>

definition counting_random :: "nat py_random" where
  "counting_random = \<lparr>seed = (\<lambda>s. nat \<bar>s\<bar>), randbelow = (\<lambda>n g. (g mod n, Suc g))\<rparr>"

section \<open>The Feature Scaler\<close>

text \<open>
  \<^verbatim>\<open>
  scaler = StandardScaler().fit(X_train0)
  X_train = scaler.transform(X_train0)
  X_test = scaler.transform(X_test0)
  \<close>
  \<^verbatim>\<open>StandardScaler\<close> is a class of the scikit-learn library: notebook 1 calls it and adds
  no check of its own. Its definitions below follow section 4.3 of the specification.
  Numbers are real numbers: rounding is left out.
\<close>


text \<open>
  Modelled from the spec: the mean that \<open>fit\<close> computes per column is the library's and
  is missing from the sources.
\<close>

definition np_mean :: "real list \<Rightarrow> real" where
  "np_mean xs = sum_list xs / real (length xs)"









section \<open>The network and its evaluation\<close>

subsection \<open>Layers\<close>

text \<open>
  The layers and the model object belong to the Keras library: the notebooks build and
  call them. Their definitions below follow sections 4.5 to 4.7 of the specification.
  The weights are whatever training left; numbers are real numbers.
\<close>

datatype activation = Linear | Relu | Softmax

datatype layer =
    Dense "real list list" "real list" activation
  | Dropout real

text \<open>
  Modelled from the spec: the activations are missing from the sources. None, the
  rectified-linear one, and the normalizing exponential transform that sums to one.
\<close>

definition activate :: "activation \<Rightarrow> real list \<Rightarrow> real list" where
  "activate a z =
     (case a of
        Linear \<Rightarrow> z
      | Relu \<Rightarrow> map (\<lambda>v. max 0 v) z
      | Softmax \<Rightarrow> map (\<lambda>v. exp v / sum_list (map exp z)) z)"

text \<open>
  Modelled from the spec: \<^verbatim>\<open>layers.Dense\<close> is missing from the sources. A linear map
  followed by the activation; the weight matrix \<open>ker\<close> has one row per input and one
  column per unit.
\<close>

definition dense :: "real list list \<Rightarrow> real list \<Rightarrow> activation \<Rightarrow> real list \<Rightarrow> real list" where
  "dense ker bias a x =
     activate a
       (map (\<lambda>u. sum_list (map (\<lambda>i. x ! i * ker ! i ! u) [0..<length x]) + bias ! u)
            [0..<length bias])"

text \<open>
  Modelled from the spec: \<^verbatim>\<open>layers.Dropout\<close> is missing from the sources. During training
  it zeroes the activations that the random choice \<open>keep\<close> drops and rescales the
  survivors by \<open>1 / (1 - rate)\<close>; at inference it is the identity.
\<close>

definition dropout :: "real \<Rightarrow> bool \<Rightarrow> (nat \<Rightarrow> bool) \<Rightarrow> real list \<Rightarrow> real list" where
  "dropout rate training keep x =
     (if training
      then map (\<lambda>i. if keep i then x ! i / (1 - rate) else 0) [0..<length x]
      else x)"

text \<open>
  Modelled from the spec: calling a layer is Keras's and is missing from the sources.
  Only dropout looks at the mode and at the random choice.
\<close>

fun call :: "bool \<Rightarrow> (nat \<Rightarrow> bool) \<Rightarrow> layer \<Rightarrow> real list \<Rightarrow> real list" where
  "call training keep (Dense ker bias a) x = dense ker bias a x"
| "call training keep (Dropout rate) x = dropout rate training keep x"

text \<open>
  Modelled from the spec: the forward pass is Keras's and is missing from the sources.
  The layers are called in order; \<open>keep d\<close> is the random choice for the layer at
  depth \<open>d\<close>.
\<close>

fun forward ::
  "bool \<Rightarrow> (nat \<Rightarrow> nat \<Rightarrow> bool) \<Rightarrow> nat \<Rightarrow> layer list \<Rightarrow> real list \<Rightarrow> real list" where
  "forward training keep d [] x = x"
| "forward training keep d (l # ls) x =
     forward training keep (Suc d) ls (call training (keep d) l x)"

text \<open>
  \<^verbatim>\<open>
  x = layers.Dense(32, activation='relu')(inps)
  x = layers.Dense(32, activation='relu')(x)
  x = layers.Dropout(0.2)(x)
  preds = layers.Dense(1)(x)
  \<close>
\<close>

definition ANN2 ::
  "real list list \<Rightarrow> real list \<Rightarrow> real list list \<Rightarrow> real list \<Rightarrow> real list list \<Rightarrow> real list
     \<Rightarrow> layer list" where
  "ANN2 k1 b1 k2 b2 k3 b3 =
     [Dense k1 b1 Relu, Dense k2 b2 Relu, Dropout (2 / 10), Dense k3 b3 Linear]"

subsection \<open>\<^verbatim>\<open>argmax\<close> and the confusion matrix\<close>

text \<open>
  Modelled from the spec: \<^verbatim>\<open>argmax\<close> is NumPy's and is missing from the sources. It is
  written as the scan that keeps the first maximum: a later element replaces the current
  one only if it is strictly greater. \<open>i\<close> is the position of \<open>v\<close>, \<open>mp\<close> the largest
  element so far and \<open>max_ind\<close> its position.
\<close>

fun argmax_scan :: "'a::linorder list \<Rightarrow> nat \<Rightarrow> 'a \<Rightarrow> nat \<Rightarrow> nat" where
  "argmax_scan [] i mp max_ind = max_ind"
| "argmax_scan (v # ip) i mp max_ind =
     (if mp < v then argmax_scan ip (Suc i) v i
      else argmax_scan ip (Suc i) mp max_ind)"

text \<open>
  Modelled from the spec: \<^verbatim>\<open>argmax\<close> on one row is missing from the sources. The scan
  starts at the first element; an empty row raises.
\<close>

definition argmax :: "'a::linorder list \<Rightarrow> error + nat" where
  "argmax ip = (case ip of [] \<Rightarrow> Inl ValueError | v # vs \<Rightarrow> Inr (argmax_scan vs 1 v 0))"

text \<open>
  Modelled from the spec: \<^verbatim>\<open>y.argmax(axis=-1)\<close> is NumPy's and is missing from the sources.
  One index per row.
\<close>

fun argmax_rows :: "'a::linorder list list \<Rightarrow> error + nat list" where
  "argmax_rows [] = Inr []"
| "argmax_rows (r # rs) =
     (case argmax r of
        Inl e \<Rightarrow> Inl e
      | Inr i \<Rightarrow> (case argmax_rows rs of Inl e \<Rightarrow> Inl e | Inr js \<Rightarrow> Inr (i # js)))"

text \<open>\<^verbatim>\<open>class_names = list(np.arange(10))\<close>: the ten classes of notebook 2.\<close>

definition class_names :: "nat list" where
  "class_names = [0..<10]"

text \<open>
  Modelled from the spec: the index of a class in the confusion matrix is scikit-learn's
  and is missing from the sources. With \<open>k\<close> classes the class ids are
  \<open>0, \<dots>, k - 1\<close> and class \<open>c\<close> has row \<open>c\<close> and column \<open>c\<close>; a label that is no
  class id has no row and no column.
\<close>

definition class_index :: "nat \<Rightarrow> nat \<Rightarrow> nat option" where
  "class_index k c = (if c < k then Some c else None)"

text \<open>
  Modelled from the spec: counting one row is scikit-learn's and is missing from the
  sources. One more at row \<open>i\<close>, column \<open>j\<close>.
\<close>

definition add_at :: "nat list list \<Rightarrow> nat \<Rightarrow> nat \<Rightarrow> nat list list" where
  "add_at C i j = C[i := (C ! i)[j := C ! i ! j + 1]]"

text \<open>
  Modelled from the spec: the counting loop is scikit-learn's and is missing from the
  sources. Every row of the data adds one at the position of its pair of labels.
\<close>

fun accumulate ::
  "(nat \<Rightarrow> nat option) \<Rightarrow> (nat \<times> nat) list \<Rightarrow> nat list list \<Rightarrow> nat list list" where
  "accumulate ind [] C = C"
| "accumulate ind ((t, p) # rows) C =
     (case (ind t, ind p) of
        (Some i, Some j) \<Rightarrow> accumulate ind rows (add_at C i j)
      | _ \<Rightarrow> accumulate ind rows C)"

text \<open>
  Modelled from the spec: \<^verbatim>\<open>confusion_matrix\<close> is scikit-learn's and is missing from the
  sources. For \<open>k\<close> classes it returns a \<open>k\<close> by \<open>k\<close> matrix of counts whose entry
  \<open>[i][j]\<close> is the number of rows with true class \<open>i\<close> and predicted class \<open>j\<close>, built
  from zero by accumulation. The number of classes is the argument \<open>k\<close>. Arguments of
  different length raise.
\<close>

definition confusion_matrix :: "nat \<Rightarrow> nat list \<Rightarrow> nat list \<Rightarrow> error + nat list list" where
  "confusion_matrix k y_true y_pred =
     (if length y_true \<noteq> length y_pred then Inl ValueError
      else Inr (accumulate (class_index k) (zip y_true y_pred)
                  (replicate k (replicate k 0))))"

text \<open>The sum of the diagonal, and the fraction of rows whose two labels agree.\<close>

definition trace :: "nat list list \<Rightarrow> nat" where
  "trace C = sum_list (map (\<lambda>i. C ! i ! i) [0..<length C])"

definition accuracy :: "nat list \<Rightarrow> nat list \<Rightarrow> real" where
  "accuracy y_true y_pred =
     real (length (filter (\<lambda>(t, p). t = p) (zip y_true y_pred))) / real (length y_true)"

text \<open>A matrix with \<open>n\<close> rows of \<open>n\<close> entries.\<close>

definition square :: "nat \<Rightarrow> nat list list \<Rightarrow> bool" where
  "square n C \<longleftrightarrow> length C = n \<and> list_all (\<lambda>row. length row = n) C"

subsection \<open>Training and evaluation\<close>

datatype loss_kind = MSE | CategoricalCrossentropy

text \<open>
  A compiled model: its layers, the loss it was compiled with, and whether
  \<^verbatim>\<open>metrics=['accuracy']\<close> was given.
\<close>

record model =
  net :: "layer list"
  loss :: loss_kind
  track_accuracy :: bool

text \<open>
  Modelled from the spec: the mean squared error is Keras's and is missing from the
  sources. The average squared difference between prediction and target.
\<close>

definition mean_squared_error :: "real list list \<Rightarrow> real list list \<Rightarrow> real" where
  "mean_squared_error Y P =
     np_mean (map (\<lambda>(y, p). np_mean (map (\<lambda>(a, b). (a - b)\<^sup>2) (zip y p))) (zip Y P))"

text \<open>
  Modelled from the spec: the categorical cross-entropy is Keras's and is missing from
  the sources. The negative mean, over rows, of the log-probability given to the true
  class.
\<close>

definition categorical_crossentropy :: "real list list \<Rightarrow> real list list \<Rightarrow> real" where
  "categorical_crossentropy Y P =
     np_mean (map (\<lambda>(y, p). - sum_list (map (\<lambda>(a, b). a * ln b) (zip y p))) (zip Y P))"

text \<open>
  Modelled from the spec: the accuracy metric is Keras's and is missing from the
  sources. The fraction of rows where the \<open>argmax\<close> of the predicted probabilities is
  the true class.
\<close>

definition categorical_accuracy :: "real list list \<Rightarrow> real list list \<Rightarrow> real" where
  "categorical_accuracy Y P =
     np_mean (map (\<lambda>(y, p). if argmax y = argmax p then 1 else 0) (zip Y P))"

text \<open>
  Modelled from the spec: \<^verbatim>\<open>Model.predict\<close> is missing from the sources. A forward pass at
  inference: every layer is called with \<open>training = False\<close>.
\<close>

definition Model_predict :: "model \<Rightarrow> real list list \<Rightarrow> real list list" where
  "Model_predict m X = map (forward False (\<lambda>d i. True) 0 (net m)) X"

text \<open>
  Modelled from the spec: the forward-only pass that scores a partition is missing from
  the sources. It returns the loss, and the accuracy if it is tracked.
\<close>

definition test_function :: "model \<Rightarrow> real list list \<Rightarrow> real list list \<Rightarrow> real list" where
  "test_function m X Y =
     (let P = Model_predict m X;
          l = (case loss m of
                 MSE \<Rightarrow> mean_squared_error Y P
               | CategoricalCrossentropy \<Rightarrow> categorical_crossentropy Y P)
      in if track_accuracy m then [l, categorical_accuracy Y P] else [l])"

text \<open>
  Modelled from the spec: \<^verbatim>\<open>Model.evaluate\<close> is missing from the sources. It returns the
  loss (and the metric) on the partition it is given, by the computation of validation
  scoring. The second component is the model object as \<open>evaluate\<close> leaves it.
\<close>

definition Model_evaluate ::
  "model \<Rightarrow> real list list \<Rightarrow> real list list \<Rightarrow> real list \<times> model" where
  "Model_evaluate m X Y = (test_function m X Y, m)"

text \<open>
  Modelled from the spec: \<^verbatim>\<open>Model.fit\<close> is missing from the sources. For each of a fixed
  number of epochs it performs one pass of parameter updates over the training partition
  and then one forward-only pass over the validation partition, recording its scores.
  The pass of parameter updates is the argument \<open>train_epoch\<close>, an external capability:
  it returns the new layers and the training loss it reports. The result is the trained
  model and the history: per epoch, the training loss and the validation scores.
\<close>

fun Model_fit ::
  "(layer list \<Rightarrow> real list list \<Rightarrow> real list list \<Rightarrow> layer list \<times> real) \<Rightarrow> nat \<Rightarrow> model
     \<Rightarrow> real list list \<Rightarrow> real list list \<Rightarrow> real list list \<Rightarrow> real list list
     \<Rightarrow> model \<times> (real \<times> real list) list" where
  "Model_fit train_epoch 0 m X Y Xv Yv = (m, [])"
| "Model_fit train_epoch (Suc e) m X Y Xv Yv =
     (case train_epoch (net m) X Y of
        (net', l) \<Rightarrow>
          (case Model_fit train_epoch e (m\<lparr>net := net'\<rparr>) X Y Xv Yv of
             (m', h) \<Rightarrow> (m', (l, test_function (m\<lparr>net := net'\<rparr>) Xv Yv) # h)))"

text \<open>
  The final cell of notebook 2:
  \<^verbatim>\<open>
  test_loss, test_acc = ANN3.evaluate(X_test, y_test, verbose=0)
  y_pred = ANN3.predict(X_test)
  y_pred = y_pred.argmax(axis=-1)
  cnf_matrix = confusion_matrix(y_test.argmax(axis=-1), y_pred)
  \<close>
  Unpacking into two names raises unless \<open>evaluate\<close> returns the loss and one metric.
  The classes of the confusion matrix are the ten of \<open>class_names\<close>.
  \<open>Xs\<close> and \<open>Ys\<close> are \<^verbatim>\<open>X_test\<close> and \<^verbatim>\<open>y_test\<close>; the record holds \<^verbatim>\<open>test_loss\<close>,
  \<^verbatim>\<open>test_acc\<close>, \<^verbatim>\<open>y_pred\<close>, \<^verbatim>\<open>cnf_matrix\<close> and the model object as the cell leaves it.
\<close>

record evaluation =
  ev_loss :: real
  ev_acc :: real
  ev_pred :: "nat list"
  ev_matrix :: "nat list list"
  ev_model :: model

definition final_evaluation ::
  "model \<Rightarrow> real list list \<Rightarrow> real list list \<Rightarrow> error + evaluation" where
  "final_evaluation ANN3 Xs Ys =
     (case Model_evaluate ANN3 Xs Ys of
        (scores, m) \<Rightarrow>
     (case scores of
        [l, a] \<Rightarrow>
     (case argmax_rows (Model_predict m Xs) of
        Inl e \<Rightarrow> Inl e
      | Inr yp \<Rightarrow>
     (case argmax_rows Ys of
        Inl e \<Rightarrow> Inl e
      | Inr yt \<Rightarrow>
     (case confusion_matrix (length class_names) yt yp of
        Inl e \<Rightarrow> Inl e
      | Inr C \<Rightarrow>
          Inr \<lparr>ev_loss = l, ev_acc = a, ev_pred = yp, ev_matrix = C, ev_model = m\<rparr>)))
      | _ \<Rightarrow> Inl TypeError))"

section \<open>Properties of the binary64 model\<close>

lemma bit_length_upper: "n < 2 ^ bit_length n"
proof (induction n rule: bit_length.induct)
  case (1 n)
  show ?case
  proof (cases "n = 0")
    case True
    then show ?thesis by simp
  next
    case False
    with 1 have "n div 2 < 2 ^ bit_length (n div 2)" by simp
    then have "n < 2 * 2 ^ bit_length (n div 2)" by linarith
    with False show ?thesis by (subst bit_length.simps) simp
  qed
qed

lemma bit_length_lower: "0 < n \<Longrightarrow> 2 ^ (bit_length n - 1) \<le> n"
proof (induction n rule: bit_length.induct)
  case (1 n)
  show ?case
  proof (cases "n div 2 = 0")
    case True
    with 1(2) have "n = 1" by presburger
    then show ?thesis by (simp add: bit_length.simps)
  next
    case False
    with 1 have ih: "2 ^ (bit_length (n div 2) - 1) \<le> n div 2" by simp
    from False have pos: "0 < bit_length (n div 2)" by (subst bit_length.simps) simp
    have "bit_length n = Suc (bit_length (n div 2))"
      using 1(2) by (subst bit_length.simps) simp
    then have "(2::nat) ^ (bit_length n - 1) = 2 * 2 ^ (bit_length (n div 2) - 1)"
      using pos by (cases "bit_length (n div 2)") simp_all
    also have "\<dots> \<le> 2 * (n div 2)" using ih by simp
    also have "\<dots> \<le> n" by simp
    finally show ?thesis .
  qed
qed

lemma bit_length_le_iff: "bit_length n \<le> k \<longleftrightarrow> n < 2 ^ k"
proof
  assume "bit_length n \<le> k"
  then have "(2::nat) ^ bit_length n \<le> 2 ^ k" by simp
  with bit_length_upper [of n] show "n < 2 ^ k" by linarith
next
  assume lt: "n < 2 ^ k"
  show "bit_length n \<le> k"
  proof (cases "n = 0")
    case True
    then show ?thesis by (simp add: bit_length.simps)
  next
    case False
    then have "2 ^ (bit_length n - 1) \<le> n" using bit_length_lower [of n] by simp
    with lt have "(2::nat) ^ (bit_length n - 1) < 2 ^ k" by linarith
    then have "bit_length n - 1 < k" by simp
    then show ?thesis by linarith
  qed
qed

text \<open>Row counts below \<open>2 ^ 53\<close> convert to floats exactly.\<close>

lemma float_of_int_exact: "n < 2 ^ 53 \<Longrightarrow> float_of_int n = \<lparr>mant = n, expo = 0\<rparr>"
  using bit_length_le_iff [of n 53] by (simp add: float_of_int_def round_to_53_def)

lemma py_int_le:
  assumes "e \<le> 0" and "q \<le> n * 2 ^ nat (- e)"
  shows "py_int \<lparr>mant = q, expo = e\<rparr> \<le> n"
proof (cases "e = 0")
  case True
  with assms show ?thesis by (simp add: py_int_def)
next
  case False
  with assms(1) have "e < 0" by simp
  moreover from assms(2) have "q div 2 ^ nat (- e) \<le> n"
    by (metis div_le_mono nonzero_mult_div_cancel_right power_not_zero zero_neq_numeral)
  ultimately show ?thesis by (simp add: py_int_def)
qed

lemma round_to_53_le:
  assumes N: "N < n * 2 ^ k" and n: "n < 2 ^ 53"
  shows "py_int (round_to_53 N (- int k)) \<le> n"
proof (cases "bit_length N \<le> 53")
  case True
  from N have "N \<le> n * 2 ^ nat (- (- int k))" by simp
  from py_int_le [OF _ this] True show ?thesis by (simp add: round_to_53_def)
next
  case False
  define s where "s = bit_length N - 53"
  define q where "q = N div 2 ^ s"
  have "N < 2 ^ 53 * 2 ^ k"
    using N n by (meson less_imp_le_nat mult_le_mono1 order_less_le_trans)
  then have "N < 2 ^ (53 + k)" by (simp add: power_add)
  then have "bit_length N \<le> 53 + k" by (simp add: bit_length_le_iff)
  then have sk: "s \<le> k" by (simp add: s_def)
  then have "n * 2 ^ k = (n * 2 ^ (k - s)) * 2 ^ s"
    by (simp add: power_add [symmetric])
  with N have "N < (n * 2 ^ (k - s)) * 2 ^ s" by simp
  then have "q < n * 2 ^ (k - s)"
    unfolding q_def by (simp add: less_mult_imp_div_less)
  then have q1: "q + 1 \<le> n * 2 ^ nat (- (- int k + int s))"
    and q0: "q \<le> n * 2 ^ nat (- (- int k + int s))"
    using sk by (simp_all add: nat_diff_distrib')
  have e: "- int k + int s \<le> 0" using sk by simp
  show ?thesis
    using False py_int_le [OF e q1] py_int_le [OF e q0]
    by (simp add: round_to_53_def Let_def s_def [symmetric] q_def [symmetric])
qed

text \<open>The truncated product never exceeds the row count.\<close>

lemma n_train_of_le:
  assumes "fraction f" and "n < 2 ^ 53"
  shows "n_train_of n f \<le> n"
proof -
  define k where "k = nat (- expo f)"
  from assms(1) have e: "expo f = - int k" and m: "mant f < 2 ^ k"
    by (simp_all add: fraction_def k_def)
  show ?thesis
  proof (cases "n = 0")
    case True
    then show ?thesis
      by (simp add: n_train_of_def fmul_def float_of_int_exact round_to_53_def
          bit_length.simps py_int_def)
  next
    case False
    with m have "n * mant f < n * 2 ^ k" by simp
    from round_to_53_le [OF this assms(2)] show ?thesis
      using assms(2) by (simp add: n_train_of_def fmul_def float_of_int_exact e)
  qed
qed

text \<open>
  The model against the real numbers: \<open>py_int\<close> is the floor of the value, \<open>fraction\<close>
  says that the value lies strictly between zero and one, the two literals are within
  half a unit in the last place of 0.7 and 0.8, and \<open>round_to_53\<close> returns the exact
  value where it fits and otherwise a significand of at most 53 bits that is within half
  a unit in the last place of the exact value.
\<close>

lemma double_val_nonneg_expo:
  "0 \<le> expo d \<Longrightarrow> double_val d = real (mant d * 2 ^ nat (expo d))"
  by (simp add: double_val_def power_int_def)

lemma double_val_neg_expo:
  "expo d < 0 \<Longrightarrow> double_val d = real (mant d) / real (2 ^ nat (- expo d))"
  by (simp add: double_val_def power_int_def field_simps)

lemma py_int_floor: "int (py_int d) = \<lfloor>double_val d\<rfloor>"
proof (cases "0 \<le> expo d")
  case True
  then show ?thesis
    by (simp only: double_val_nonneg_expo py_int_def if_True floor_of_nat)
next
  case False
  then have "\<lfloor>double_val d\<rfloor> = int (mant d div 2 ^ nat (- expo d))"
    by (simp only: double_val_neg_expo floor_divide_of_nat_eq not_le)
  then show ?thesis using False by (simp add: py_int_def)
qed

lemma fraction_iff: "fraction f \<longleftrightarrow> 0 < double_val f \<and> double_val f < 1"
proof (cases "0 \<le> expo f")
  case True
  define N where "N = mant f * 2 ^ nat (expo f)"
  have "\<not> (0 < real N \<and> real N < 1)"
  proof (cases "N = 0")
    case True
    then show ?thesis by simp
  next
    case False
    then have "1 \<le> real N" by simp
    then show ?thesis by simp
  qed
  then have "\<not> (0 < double_val f \<and> double_val f < 1)"
    unfolding double_val_nonneg_expo [OF True] N_def .
  with True show ?thesis by (simp add: fraction_def)
next
  case False
  then have v: "double_val f = real (mant f) / real (2 ^ nat (- expo f))"
    by (simp add: double_val_neg_expo)
  have p: "0 < real (2 ^ nat (- expo f))" by simp
  have "0 < double_val f \<longleftrightarrow> 0 < mant f"
    unfolding v using p by (simp add: zero_less_divide_iff)
  moreover have "double_val f < 1 \<longleftrightarrow> real (mant f) < real (2 ^ nat (- expo f))"
    unfolding v using p by (simp only: divide_less_eq_1_pos)
  then have "double_val f < 1 \<longleftrightarrow> mant f < 2 ^ nat (- expo f)"
    by (simp only: of_nat_less_iff)
  ultimately show ?thesis using False by (simp add: fraction_def)
qed

lemma lit_0_7_near: "\<bar>double_val lit_0_7 - 7 / 10\<bar> \<le> 1 / 2 ^ 54"
  by (simp add: double_val_def lit_0_7_def power_int_def abs_le_iff field_simps)

lemma lit_0_8_near: "\<bar>double_val lit_0_8 - 8 / 10\<bar> \<le> 1 / 2 ^ 54"
  by (simp add: double_val_def lit_0_8_def power_int_def abs_le_iff field_simps)

lemma round_to_53_exact:
  "N < 2 ^ 53 \<Longrightarrow> round_to_53 N e = \<lparr>mant = N, expo = e\<rparr>"
  using bit_length_le_iff [of N 53] by (simp add: round_to_53_def)

lemma round_to_53_nearest:
  assumes "2 ^ 53 \<le> N"
  defines "s \<equiv> bit_length N - 53"
  shows "expo (round_to_53 N e) = e + int s"
    and "mant (round_to_53 N e) * 2 ^ s \<le> N + 2 ^ (s - 1)"
    and "N \<le> mant (round_to_53 N e) * 2 ^ s + 2 ^ (s - 1)"
    and "mant (round_to_53 N e) \<le> 2 ^ 53"
proof -
  define q where "q = N div 2 ^ s"
  define r where "r = N mod 2 ^ s"
  define h :: nat where "h = 2 ^ (s - 1)"
  define q' where "q' = (if h < r \<or> (r = h \<and> odd q) then q + 1 else q)"
  from assms(1) have b: "\<not> bit_length N \<le> 53" by (simp add: bit_length_le_iff)
  then have s: "0 < s" by (simp add: s_def)
  then have two_s: "(2::nat) ^ s = 2 * h"
    by (cases s) (simp_all add: h_def)
  have "round_to_53 N e =
      \<lparr>mant = (if 2 ^ (s - 1) < N mod 2 ^ s \<or> (N mod 2 ^ s = 2 ^ (s - 1) \<and> odd (N div 2 ^ s))
               then N div 2 ^ s + 1 else N div 2 ^ s),
       expo = e + int s\<rparr>"
    unfolding round_to_53_def Let_def s_def using b by (simp only: if_False)
  then have res: "round_to_53 N e = \<lparr>mant = q', expo = e + int s\<rparr>"
    unfolding q'_def q_def r_def h_def .
  have N: "N = q * (2 * h) + r"
    unfolding q_def r_def two_s [symmetric] by (rule div_mult_mod_eq [symmetric])
  have r: "r < 2 * h"
    unfolding r_def two_s [symmetric] by simp
  have "N < 2 ^ bit_length N" by (rule bit_length_upper)
  also have "bit_length N = 53 + s" using b by (simp add: s_def)
  finally have "N < 2 ^ 53 * (2 * h)" by (simp add: power_add two_s)
  then have "q * (2 * h) < 2 ^ 53 * (2 * h)" using N by linarith
  then have q: "q < 2 ^ 53" by simp
  show "expo (round_to_53 N e) = e + int s" by (simp add: res)
  show "mant (round_to_53 N e) \<le> 2 ^ 53" using q by (simp add: res q'_def)
  show "mant (round_to_53 N e) * 2 ^ s \<le> N + 2 ^ (s - 1)"
    unfolding res two_s h_def [symmetric] using N r by (auto simp: q'_def algebra_simps)
  show "N \<le> mant (round_to_53 N e) * 2 ^ s + 2 ^ (s - 1)"
    unfolding res two_s h_def [symmetric] using N r by (auto simp: q'_def algebra_simps)
qed

section \<open>Properties of the Splitter\<close>

lemma swap_items_mset: "swap_items x i j = Inr x' \<Longrightarrow> mset x' = mset x"
  by (auto simp: swap_items_def mset_swap split: if_splits)

lemma shuffle_from_mset:
  "shuffle_from rb i g x = Inr (x', g') \<Longrightarrow> mset x' = mset x"
proof (induction i arbitrary: g x)
  case 0
  then show ?case by simp
next
  case (Suc k)
  then show ?case
    by (auto split: prod.splits sum.splits dest: swap_items_mset)
qed

text \<open>With a generator that keeps the library's promise no swap is out of range.\<close>

lemma shuffle_from_total:
  assumes "\<forall>n g. 0 < n \<longrightarrow> fst (rb n g) < n" and "i < length x"
  shows "\<exists>x' g'. shuffle_from rb i g x = Inr (x', g')"
  using assms(2)
proof (induction i arbitrary: g x)
  case 0
  then show ?case by simp
next
  case (Suc k)
  obtain j g1 where rb: "rb (Suc k + 1) g = (j, g1)" by (cases "rb (Suc k + 1) g")
  from assms(1) have "fst (rb (Suc k + 1) g) < Suc k + 1" by simp
  with rb have j: "j < Suc k + 1" by simp
  with Suc.prems have sw: "swap_items x (Suc k) j = Inr (x[Suc k := x ! j, j := x ! Suc k])"
    by (simp add: swap_items_def)
  have "k < length (x[Suc k := x ! j, j := x ! Suc k])" using Suc.prems by simp
  from Suc.IH [OF this] show ?case using rb sw by simp
qed

lemma shuffle_ok:
  assumes "randbelow_ok R"
  shows "\<exists>x' g'. shuffle R g x = Inr (x', g') \<and> mset x' = mset x"
proof (cases "x = []")
  case True
  then show ?thesis by (simp add: shuffle_def)
next
  case False
  then have len: "length x - 1 < length x" by simp
  from assms have rb: "\<forall>n g. 0 < n \<longrightarrow> fst (randbelow R n g) < n"
    by (simp add: randbelow_ok_def)
  from shuffle_from_total [OF rb len, of g] obtain x' g'
    where sh: "shuffle_from (randbelow R) (length x - 1) g x = Inr (x', g')"
    by blast
  from shuffle_from_mset [OF sh] have "mset x' = mset x" .
  with sh have "shuffle R g x = Inr (x', g') \<and> mset x' = mset x"
    by (simp add: shuffle_def)
  then show ?thesis by blast
qed

lemma split_indices_ok:
  assumes "randbelow_ok R"
  shows "\<exists>ix g'. mset ix = mset [0..<n] \<and>
           split_indices R s f n g0 =
             Inr \<lparr>indices = ix, train_idx = take (n_train_of n f) ix,
                  test_idx = drop (n_train_of n f) ix, rng_state = g'\<rparr>"
proof -
  from shuffle_ok [OF assms] obtain ix g'
    where "shuffle R (seed R s) [0..<n] = Inr (ix, g')" and "mset ix = mset [0..<n]"
    by blast
  then have "mset ix = mset [0..<n] \<and>
           split_indices R s f n g0 =
             Inr \<lparr>indices = ix, train_idx = take (n_train_of n f) ix,
                  test_idx = drop (n_train_of n f) ix, rng_state = g'\<rparr>"
    by (simp add: split_indices_def Let_def)
  then show ?thesis by blast
qed

lemma perm_upt_facts:
  assumes "mset ix = mset [0..<n]"
  shows "set ix = {0..<n}" and "distinct ix" and "length ix = n"
proof -
  from assms show "set ix = {0..<n}" by (metis mset_eq_setD set_upt)
  from assms show "distinct ix" by (metis distinct_upt mset_eq_imp_distinct_iff)
  from assms show "length ix = n" by (metis length_upt mset_eq_length diff_zero)
qed

lemma take_rows_ok:
  "set idx \<subseteq> {0..<length X} \<Longrightarrow> take_rows X idx = Inr (map (\<lambda>k. X ! k) idx)"
  by (auto simp: take_rows_def list_all_iff)

lemma split_arrays_ok:
  assumes "randbelow_ok R" and "n \<le> length X" and "n \<le> length y"
  shows "\<exists>ix g'. mset ix = mset [0..<n] \<and>
           split_arrays R s f n g0 X y =
             Inr \<lparr>perm = ix,
                  X_train = map (\<lambda>k. X ! k) (take (n_train_of n f) ix),
                  X_test = map (\<lambda>k. X ! k) (drop (n_train_of n f) ix),
                  y_train = map (\<lambda>k. y ! k) (take (n_train_of n f) ix),
                  y_test = map (\<lambda>k. y ! k) (drop (n_train_of n f) ix),
                  rng_after = g'\<rparr>"
proof -
  from split_indices_ok [OF assms(1)] obtain ix g'
    where ix: "mset ix = mset [0..<n]"
      and sp: "split_indices R s f n g0 =
             Inr \<lparr>indices = ix, train_idx = take (n_train_of n f) ix,
                  test_idx = drop (n_train_of n f) ix, rng_state = g'\<rparr>"
    by blast
  define k where "k = n_train_of n f"
  from ix have "set ix = {0..<n}" by (rule perm_upt_facts)
  moreover have "set (take k ix) \<subseteq> set ix" and "set (drop k ix) \<subseteq> set ix"
    by (rule set_take_subset, rule set_drop_subset)
  ultimately have a: "set (take k ix) \<subseteq> {0..<n}" and b: "set (drop k ix) \<subseteq> {0..<n}"
    by simp_all
  have X: "{0..<n} \<subseteq> {0..<length X}" and y: "{0..<n} \<subseteq> {0..<length y}"
    using assms(2,3) by simp_all
  have "take_rows X (take k ix) = Inr (map (\<lambda>k. X ! k) (take k ix))"
    by (rule take_rows_ok [OF subset_trans [OF a X]])
  moreover have "take_rows X (drop k ix) = Inr (map (\<lambda>k. X ! k) (drop k ix))"
    by (rule take_rows_ok [OF subset_trans [OF b X]])
  moreover have "take_rows y (take k ix) = Inr (map (\<lambda>k. y ! k) (take k ix))"
    by (rule take_rows_ok [OF subset_trans [OF a y]])
  moreover have "take_rows y (drop k ix) = Inr (map (\<lambda>k. y ! k) (drop k ix))"
    by (rule take_rows_ok [OF subset_trans [OF b y]])
  ultimately have "split_arrays R s f n g0 X y =
             Inr \<lparr>perm = ix,
                  X_train = map (\<lambda>k. X ! k) (take k ix),
                  X_test = map (\<lambda>k. X ! k) (drop k ix),
                  y_train = map (\<lambda>k. y ! k) (take k ix),
                  y_test = map (\<lambda>k. y ! k) (drop k ix),
                  rng_after = g'\<rparr>"
    using sp by (simp add: split_arrays_def k_def)
  with ix show ?thesis unfolding k_def by blast
qed

subsection \<open>The claims about the Splitter\<close>

lemma n_train_scenarios:
  "n_train_of 1142 lit_0_7 = 799" "n_train_of 60000 lit_0_8 = 48000"
  by (simp_all add: n_train_of_def fmul_def float_of_int_def round_to_53_def Let_def
      bit_length.simps py_int_def lit_0_7_def lit_0_8_def)

lemma counting_random_ok: "randbelow_ok counting_random"
  by (simp add: randbelow_ok_def counting_random_def)

lemma fraction_lits: "fraction lit_0_7" "fraction lit_0_8"
  by (simp_all add: fraction_def lit_0_7_def lit_0_8_def)

text \<open>
  Claim C1, as the cells compute it. For every row count \<open>n\<close> below \<open>2 ^ 53\<close> and
  every binary64 fraction \<open>f\<close> strictly between zero and one, with a generator that keeps
  the promise of \<open>randbelow\<close>, the Splitter returns a permutation of \<open>0, \<dots>, n - 1\<close>
  and two index lists that are disjoint and together exhaust \<open>{0, \<dots>, n - 1}\<close>. The
  train list is the first \<^verbatim>\<open>int(n * f)\<close> indices of the permutation and the other list
  the remaining \<open>n - int(n * f)\<close>: the product is truncated, not rounded.
\<close>

theorem splitter_partition:
  assumes "randbelow_ok R" and "fraction f" and "n < 2 ^ 53"
  shows "\<exists>sp. split_indices R s f n g0 = Inr sp
     \<and> mset (indices sp) = mset [0..<n]
     \<and> train_idx sp = take (n_train_of n f) (indices sp)
     \<and> test_idx sp = drop (n_train_of n f) (indices sp)
     \<and> set (train_idx sp) \<inter> set (test_idx sp) = {}
     \<and> set (train_idx sp) \<union> set (test_idx sp) = {0..<n}
     \<and> length (train_idx sp) = n_train_of n f
     \<and> length (test_idx sp) = n - n_train_of n f"
proof -
  define k where "k = n_train_of n f"
  from split_indices_ok [OF assms(1), of n s f g0] obtain ix g'
    where ix: "mset ix = mset [0..<n]"
      and sp: "split_indices R s f n g0 =
             Inr \<lparr>indices = ix, train_idx = take k ix, test_idx = drop k ix, rng_state = g'\<rparr>"
    unfolding k_def by blast
  from perm_upt_facts [OF ix] have s: "set ix = {0..<n}" and d: "distinct ix" and l: "length ix = n" .
  from n_train_of_le [OF assms(2,3)] have kn: "k \<le> n" by (simp add: k_def)
  from d have "distinct (take k ix @ drop k ix)" by simp
  then have disj: "set (take k ix) \<inter> set (drop k ix) = {}" by (simp only: distinct_append)
  have "set (take k ix) \<union> set (drop k ix) = set (take k ix @ drop k ix)" by (simp only: set_append)
  with s have un: "set (take k ix) \<union> set (drop k ix) = {0..<n}" by simp
  have "length (take k ix) = k" "length (drop k ix) = n - k" using kn l by simp_all
  with sp ix disj un show ?thesis unfolding k_def [symmetric] by simp
qed

theorem splitter_partition_witness:
  "randbelow_ok counting_random \<and> fraction lit_0_7 \<and> (1142::nat) < 2 ^ 53 \<and>
   (\<exists>sp. split_indices counting_random 1234 lit_0_7 1142 0 = Inr sp
     \<and> mset (indices sp) = mset [0..<1142]
     \<and> train_idx sp = take (n_train_of 1142 lit_0_7) (indices sp)
     \<and> test_idx sp = drop (n_train_of 1142 lit_0_7) (indices sp)
     \<and> set (train_idx sp) \<inter> set (test_idx sp) = {}
     \<and> set (train_idx sp) \<union> set (test_idx sp) = {0..<1142}
     \<and> length (train_idx sp) = n_train_of 1142 lit_0_7
     \<and> length (test_idx sp) = 1142 - n_train_of 1142 lit_0_7)"
proof -
  have n: "(1142::nat) < 2 ^ 53" by simp
  from splitter_partition [OF counting_random_ok fraction_lits(1) n, of 1234 0]
  show ?thesis using counting_random_ok fraction_lits(1) n by blast
qed

lemma shuffle_from_unfold:
  "0 < i \<Longrightarrow> shuffle_from rb i g x =
     (case rb (i + 1) g of (j, g') \<Rightarrow>
        (case swap_items x i j of
           Inl e \<Rightarrow> Inl e
         | Inr x' \<Rightarrow> shuffle_from rb (i - 1) g' x'))"
  by (cases i) (simp_all split: prod.split sum.split)

lemma upt_4: "[0..<4] = [0, 1, 2, 3::nat]"
  by (simp add: upt_rec)

lemma n_train_4: "n_train_of 4 lit_0_7 = 2"
  by (simp add: n_train_of_def fmul_def float_of_int_def round_to_53_def Let_def
      bit_length.simps py_int_def lit_0_7_def)

lemma py_round_4: "py_round (fmul (float_of_int 4) lit_0_7) = 3"
  by (simp add: fmul_def float_of_int_def round_to_53_def Let_def
      bit_length.simps py_round_def lit_0_7_def)

lemma shuffle_4: "shuffle counting_random 1234 [0, 1, 2, 3::nat] = Inr ([1, 0, 3, 2], 1237)"
  by code_simp

text \<open>
  With four rows and the fraction 0.7 the product is 2.8: two rows go to the train list,
  while \<^verbatim>\<open>round(4 * 0.7)\<close> is three.
\<close>

theorem splitter_round_counterexample:
  "fraction lit_0_7 \<and>
   split_indices counting_random 1234 lit_0_7 4 0 =
     Inr \<lparr>indices = [1, 0, 3, 2], train_idx = [1, 0], test_idx = [3, 2], rng_state = 1237\<rparr> \<and>
   py_round (fmul (float_of_int 4) lit_0_7) = 3"
proof -
  have "seed counting_random 1234 = 1234" by (simp add: counting_random_def)
  then have "split_indices counting_random 1234 lit_0_7 4 0 =
     Inr \<lparr>indices = [1, 0, 3, 2], train_idx = [1, 0], test_idx = [3, 2], rng_state = 1237\<rparr>"
    using shuffle_4 by (simp add: split_indices_def n_train_4 upt_4)
  with py_round_4 fraction_lits(1) show ?thesis by simp
qed

text \<open>
  Claim C4. Two runs of the Splitter with the same seed and the same row count return
  the same permutation and the same split, whatever state the module-level generator
  was in before each run: \<^verbatim>\<open>random.seed\<close> replaces that state.
\<close>

theorem splitter_deterministic:
  "split_indices R s f n g0 = split_indices R s f n g1 \<and>
   split_arrays R s f n g0 X y = split_arrays R s f n g1 X y \<and>
   part1_split R g0 X y = part1_split R g1 X y \<and>
   part2_split R g0 cast train_images train_labels =
     part2_split R g1 cast train_images train_labels"
proof -
  have i: "split_indices R s f n g0 = split_indices R s f n g1" for s f n
    by (simp add: split_indices_def)
  have a: "split_arrays R s f n g0 X y = split_arrays R s f n g1 X y"
    for s f n and X :: "'x list" and y :: "'y list"
    by (simp add: split_arrays_def i)
  have "part1_split R g0 X y = part1_split R g1 X y"
    unfolding part1_split_def by (rule a)
  moreover have "part2_split R g0 cast train_images train_labels =
     part2_split R g1 cast train_images train_labels"
    unfolding part2_split_def by (simp add: a split: sum.split)
  ultimately show ?thesis using i a by simp
qed

lemma split_arrays_lengths:
  assumes "randbelow_ok R" and "n \<le> length X" and "n \<le> length y"
  shows "\<exists>p. split_arrays R s f n g0 X y = Inr p
     \<and> length (X_train p) = min (n_train_of n f) n \<and> length (y_train p) = min (n_train_of n f) n
     \<and> length (X_test p) = n - n_train_of n f \<and> length (y_test p) = n - n_train_of n f"
proof -
  from split_arrays_ok [OF assms, of s f g0] obtain ix g'
    where ix: "mset ix = mset [0..<n]"
      and sp: "split_arrays R s f n g0 X y =
             Inr \<lparr>perm = ix,
                  X_train = map (\<lambda>k. X ! k) (take (n_train_of n f) ix),
                  X_test = map (\<lambda>k. X ! k) (drop (n_train_of n f) ix),
                  y_train = map (\<lambda>k. y ! k) (take (n_train_of n f) ix),
                  y_test = map (\<lambda>k. y ! k) (drop (n_train_of n f) ix),
                  rng_after = g'\<rparr>"
    by blast
  from perm_upt_facts(3) [OF ix] have "length ix = n" .
  with sp show ?thesis by (simp add: min.commute)
qed

lemma to_categorical_ok: "y \<noteq> [] \<Longrightarrow> \<exists>c. to_categorical y = Inr c \<and> length c = length y"
  by (simp add: to_categorical_def)

lemma concat_rows_length:
  "list_all (\<lambda>r. length r = w) xs \<Longrightarrow> length (concat xs) = length xs * w"
  by (induction xs) simp_all

lemma image_ok_length: "image_ok im \<Longrightarrow> length (concat im) = 28 * 28"
  using concat_rows_length [of 28 im] by (simp add: image_ok_def)

text \<open>Cutting a concatenation of rows of one width into runs of that width gives the rows.\<close>

lemma take_drop_concat:
  "list_all (\<lambda>r. length r = w) xs \<Longrightarrow> i < length xs \<Longrightarrow>
     take w (drop (i * w) (concat xs)) = xs ! i"
proof (induction xs arbitrary: i)
  case Nil
  then show ?case by simp
next
  case (Cons x xs)
  show ?case
  proof (cases i)
    case 0
    with Cons.prems show ?thesis by simp
  next
    case (Suc i')
    with Cons.prems have "take w (drop (i' * w) (concat xs)) = xs ! i'" by (simp add: Cons.IH)
    moreover have "drop (Suc i' * w) (concat (x # xs)) = drop (i' * w) (concat xs)"
      using Cons.prems(1) by simp
    ultimately show ?thesis using Suc by simp
  qed
qed

text \<open>With images of 28 by 28 pixels each row of the reshaped array is one flattened image.\<close>

lemma reshape_rows_ok:
  assumes "length imgs = n" and "list_all image_ok imgs"
  shows "reshape_rows n imgs = Inr (map concat imgs)"
proof -
  let ?rows = "map concat imgs"
  have w: "list_all (\<lambda>r. length r = 28 * 28) ?rows"
    using assms(2) by (simp add: list_all_iff image_ok_length)
  then have len: "length (concat ?rows) = n * (28 * 28)"
    using concat_rows_length [of "28 * 28" ?rows] assms(1) by simp
  have "map (\<lambda>i. take (28 * 28) (drop (i * (28 * 28)) (concat ?rows))) [0..<n] =
        map (\<lambda>i. ?rows ! i) [0..<n]"
    using take_drop_concat [OF w] assms(1) by (intro map_cong) simp_all
  also have "\<dots> = ?rows" using assms(1) map_nth [of ?rows] by simp
  finally show ?thesis using len by (simp add: reshape_rows_def Let_def del: map_map)
qed

text \<open>
  Claim C5. With 1142 rows the split cell of notebook 1 yields 799 train rows and 343
  test rows; with 60000 images the split cell of notebook 2 yields 48000 rows for
  training proper and 12000 for validation.
\<close>

theorem scenario_sizes:
  assumes "randbelow_ok R"
    and "length X = 1142" and "length y = 1142"
    and "length train_images = 60000" and "list_all image_ok train_images"
    and "length train_labels = 60000"
  shows "(\<exists>p. part1_split R g0 X y = Inr p
            \<and> length (X_train p) = 799 \<and> length (y_train p) = 799
            \<and> length (X_test p) = 343 \<and> length (y_test p) = 343) \<and>
         (\<exists>p. part2_split R g0 cast train_images train_labels = Inr p
            \<and> length (X_train p) = 48000 \<and> length (y_train p) = 48000
            \<and> length (X_test p) = 12000 \<and> length (y_test p) = 12000)"
proof
  have "1142 \<le> length X" "1142 \<le> length y" using assms(2,3) by simp_all
  from split_arrays_lengths [OF assms(1) this, of 1234 lit_0_7 g0]
  show "\<exists>p. part1_split R g0 X y = Inr p
            \<and> length (X_train p) = 799 \<and> length (y_train p) = 799
            \<and> length (X_test p) = 343 \<and> length (y_test p) = 343"
    using assms(3) by (simp add: part1_split_def n_train_scenarios)
next
  let ?X = "map (map cast) (map concat train_images)"
  have r: "reshape_rows n_train0 train_images = Inr (map concat train_images)"
    using assms(4,5) by (simp add: reshape_rows_ok n_train0_def)
  have "60000 \<le> length ?X" "60000 \<le> length train_labels" using assms(4,6) by simp_all
  from split_arrays_lengths [OF assms(1) this, of 4826 lit_0_8 g0] obtain p
    where p: "split_arrays R 4826 lit_0_8 60000 g0 ?X train_labels = Inr p"
      and l: "length (X_train p) = 48000" "length (y_train p) = 48000"
        "length (X_test p) = 12000" "length (y_test p) = 12000"
    by (auto simp: n_train_scenarios)
  from l have "y_train p \<noteq> []" "y_test p \<noteq> []" by auto
  with to_categorical_ok obtain ya yb
    where ya: "to_categorical (y_train p) = Inr ya" "length ya = length (y_train p)"
      and yb: "to_categorical (y_test p) = Inr yb" "length yb = length (y_test p)"
    by blast
  show "\<exists>p. part2_split R g0 cast train_images train_labels = Inr p
            \<and> length (X_train p) = 48000 \<and> length (y_train p) = 48000
            \<and> length (X_test p) = 12000 \<and> length (y_test p) = 12000"
    using r p l ya yb by (simp add: part2_split_def n_train0_def)
qed

theorem scenario_sizes_witness:
  "randbelow_ok counting_random
    \<and> length (replicate 1142 [0::real]) = 1142 \<and> length (replicate 1142 (0::real)) = 1142
    \<and> length (replicate 60000 (replicate 28 (replicate 28 (0::nat)))) = 60000
    \<and> list_all image_ok (replicate 60000 (replicate 28 (replicate 28 (0::nat))))
    \<and> length (replicate 60000 (0::nat)) = 60000
    \<and> (\<exists>p. part1_split counting_random 0 (replicate 1142 [0::real]) (replicate 1142 (0::real)) = Inr p
            \<and> length (X_train p) = 799 \<and> length (y_train p) = 799
            \<and> length (X_test p) = 343 \<and> length (y_test p) = 343)
    \<and> (\<exists>p. part2_split counting_random 0 (\<lambda>v. real v / 255)
               (replicate 60000 (replicate 28 (replicate 28 (0::nat)))) (replicate 60000 (0::nat)) = Inr p
            \<and> length (X_train p) = 48000 \<and> length (y_train p) = 48000
            \<and> length (X_test p) = 12000 \<and> length (y_test p) = 12000)"
proof -
  have img: "list_all image_ok (replicate 60000 (replicate 28 (replicate 28 (0::nat))))"
    by (simp add: list_all_iff image_ok_def)
  have a: "length (replicate 1142 [0::real]) = 1142" "length (replicate 1142 (0::real)) = 1142"
    and b: "length (replicate 60000 (replicate 28 (replicate 28 (0::nat)))) = 60000"
    and c: "length (replicate 60000 (0::nat)) = 60000"
    by simp_all
  from scenario_sizes [OF counting_random_ok a b img c, of 0 "\<lambda>v. real v / 255"]
  show ?thesis using counting_random_ok img by simp
qed

text \<open>
  Claim C10. The same index list selects the feature rows and the labels, so at every
  position of the train partition, and of the test or validation partition, the feature
  row and the label are those of one and the same row of the original arrays.
\<close>

theorem split_keeps_pairs:
  assumes "randbelow_ok R" and "n \<le> length X" and "n \<le> length y"
  shows "\<exists>p. split_arrays R s f n g0 X y = Inr p
     \<and> mset (perm p) = mset [0..<n]
     \<and> length (y_train p) = length (X_train p)
     \<and> length (y_test p) = length (X_test p)
     \<and> (\<forall>i<length (X_train p).
           X_train p ! i = X ! (perm p ! i) \<and> y_train p ! i = y ! (perm p ! i))
     \<and> (\<forall>i<length (X_test p).
           X_test p ! i = X ! (perm p ! (length (X_train p) + i)) \<and>
           y_test p ! i = y ! (perm p ! (length (X_train p) + i)))"
proof -
  define k where "k = n_train_of n f"
  from split_arrays_ok [OF assms, of s f g0] obtain ix g'
    where ix: "mset ix = mset [0..<n]"
      and sp: "split_arrays R s f n g0 X y =
             Inr \<lparr>perm = ix,
                  X_train = map (\<lambda>k. X ! k) (take k ix),
                  X_test = map (\<lambda>k. X ! k) (drop k ix),
                  y_train = map (\<lambda>k. y ! k) (take k ix),
                  y_test = map (\<lambda>k. y ! k) (drop k ix),
                  rng_after = g'\<rparr>"
    unfolding k_def by blast
  have tr: "\<forall>i<length (take k ix).
           map (\<lambda>k. X ! k) (take k ix) ! i = X ! (ix ! i) \<and>
           map (\<lambda>k. y ! k) (take k ix) ! i = y ! (ix ! i)"
    by simp
  have te: "\<forall>i<length (drop k ix).
           map (\<lambda>k. X ! k) (drop k ix) ! i = X ! (ix ! (length (take k ix) + i)) \<and>
           map (\<lambda>k. y ! k) (drop k ix) ! i = y ! (ix ! (length (take k ix) + i))"
  proof (intro allI impI)
    fix i assume i: "i < length (drop k ix)"
    then have "k \<le> length ix" by simp
    then have "length (take k ix) = k" by simp
    moreover have "drop k ix ! i = ix ! (k + i)" using \<open>k \<le> length ix\<close> by simp
    ultimately show "map (\<lambda>k. X ! k) (drop k ix) ! i = X ! (ix ! (length (take k ix) + i)) \<and>
           map (\<lambda>k. y ! k) (drop k ix) ! i = y ! (ix ! (length (take k ix) + i))"
      using i by (simp del: length_take length_drop)
  qed
  show ?thesis using sp ix tr te by simp
qed

theorem split_keeps_pairs_witness:
  "randbelow_ok counting_random \<and> 4 \<le> length [10, 11, 12, 13 :: nat]
     \<and> 4 \<le> length [''a'', ''b'', ''c'', ''d''] \<and>
   (\<exists>p. split_arrays counting_random 1234 lit_0_7 4 0 [10, 11, 12, 13 :: nat]
           [''a'', ''b'', ''c'', ''d''] = Inr p
     \<and> mset (perm p) = mset [0..<4]
     \<and> length (y_train p) = length (X_train p)
     \<and> length (y_test p) = length (X_test p)
     \<and> (\<forall>i<length (X_train p).
           X_train p ! i = [10, 11, 12, 13] ! (perm p ! i) \<and>
           y_train p ! i = [''a'', ''b'', ''c'', ''d''] ! (perm p ! i))
     \<and> (\<forall>i<length (X_test p).
           X_test p ! i = [10, 11, 12, 13] ! (perm p ! (length (X_train p) + i)) \<and>
           y_test p ! i = [''a'', ''b'', ''c'', ''d''] ! (perm p ! (length (X_train p) + i))))"
proof -
  have a: "4 \<le> length [10, 11, 12, 13 :: nat]" and b: "4 \<le> length [''a'', ''b'', ''c'', ''d'']"
    by simp_all
  from split_keeps_pairs [OF counting_random_ok a b, of 1234 lit_0_7 0]
  show ?thesis using counting_random_ok by simp
qed

section \<open>Properties of the Feature Scaler\<close>














section \<open>Properties of the network and its evaluation\<close>

subsection \<open>Dropout and evaluation\<close>

text \<open>
  Claim C7. At inference the dropout layer of rate 0.2 returns its input unchanged,
  whatever the random choice would have been: nothing is zeroed, nothing rescaled. The
  network of notebook 1 then computes what its three dense layers compute.
\<close>

theorem dropout_identity_at_inference:
  "call False keep (Dropout (2 / 10)) x = x \<and>
   forward False keeps d (ANN2 k1 b1 k2 b2 k3 b3) x =
     dense k3 b3 Linear (dense k2 b2 Relu (dense k1 b1 Relu x))"
  by (simp add: dropout_def ANN2_def)

text \<open>During training the same layer zeroes the dropped entries and divides the others by 0.8.\<close>

lemma dropout_training_example:
  "call True (\<lambda>i. i \<noteq> 0) (Dropout (2 / 10)) [1, 1] = [0, 5 / 4]"
  by (simp add: dropout_def upt_rec)

lemma Model_fit_Suc:
  "Model_fit train_epoch (Suc e) m X Y Xv Yv =
     (fst (Model_fit train_epoch e (m\<lparr>net := fst (train_epoch (net m) X Y)\<rparr>) X Y Xv Yv),
      (snd (train_epoch (net m) X Y),
       test_function (m\<lparr>net := fst (train_epoch (net m) X Y)\<rparr>) Xv Yv) #
      snd (Model_fit train_epoch e (m\<lparr>net := fst (train_epoch (net m) X Y)\<rparr>) X Y Xv Yv))"
  by (simp add: case_prod_beta)

lemma Model_fit_length: "length (snd (Model_fit train_epoch e m X Y Xv Yv)) = e"
  by (induction e arbitrary: m) (simp_all add: case_prod_beta)

lemma Model_fit_history:
  "i < e \<Longrightarrow>
     snd (snd (Model_fit train_epoch e m X Y Xv Yv) ! i) =
     test_function (fst (Model_fit train_epoch (Suc i) m X Y Xv Yv)) Xv Yv"
proof (induction e arbitrary: m i)
  case 0
  then show ?case by simp
next
  case (Suc e)
  let ?m1 = "m\<lparr>net := fst (train_epoch (net m) X Y)\<rparr>"
  show ?case
  proof (cases i)
    case 0
    then show ?thesis by (simp add: case_prod_beta)
  next
    case (Suc i')
    with Suc.prems have "i' < e" by simp
    from Suc.IH [OF this, of ?m1] Suc show ?thesis
      by (simp only: Model_fit_Suc [of _ e] Model_fit_Suc [of _ "Suc i'"] snd_conv fst_conv nth_Cons_Suc)
  qed
qed

text \<open>
  Claim C9. \<open>evaluate\<close> returns the scores of the model on the partition and leaves the
  model, and so every parameter, as it was; and the validation scores that \<open>fit\<close>
  records for an epoch are what \<open>evaluate\<close> returns on the validation partition for
  the model as it stands after that epoch.
\<close>

theorem evaluate_pure:
  "snd (Model_evaluate m X Y) = m \<and>
   fst (Model_evaluate m X Y) = test_function m X Y \<and>
   length (fst (Model_evaluate m X Y)) = (if track_accuracy m then 2 else 1) \<and>
   (\<forall>i<epochs.
      snd (snd (Model_fit train_epoch epochs m Xt Yt Xv Yv) ! i) =
      fst (Model_evaluate (fst (Model_fit train_epoch (Suc i) m Xt Yt Xv Yv)) Xv Yv))"
proof -
  have "length (test_function m X Y) = (if track_accuracy m then 2 else 1)"
    by (simp add: test_function_def Let_def)
  moreover have "\<forall>i<epochs.
      snd (snd (Model_fit train_epoch epochs m Xt Yt Xv Yv) ! i) =
      test_function (fst (Model_fit train_epoch (Suc i) m Xt Yt Xv Yv)) Xv Yv"
    using Model_fit_history by blast
  ultimately show ?thesis by (simp add: Model_evaluate_def del: Model_fit.simps)
qed

theorem evaluate_pure_witness:
  "(1::nat) < 2 \<and>
   snd (Model_evaluate \<lparr>net = [Dense [[2]] [1] Linear], loss = MSE, track_accuracy = False\<rparr>
          [[1]] [[3]])
     = \<lparr>net = [Dense [[2]] [1] Linear], loss = MSE, track_accuracy = False\<rparr> \<and>
   fst (Model_evaluate \<lparr>net = [Dense [[2]] [1] Linear], loss = MSE, track_accuracy = False\<rparr>
          [[1]] [[3]]) = [0] \<and>
   snd (snd (Model_fit (\<lambda>layers X Y. (layers, 0)) 2
          \<lparr>net = [Dense [[2]] [1] Linear], loss = MSE, track_accuracy = False\<rparr>
          [[1]] [[3]] [[1]] [[3]]) ! 1) =
   fst (Model_evaluate (fst (Model_fit (\<lambda>layers X Y. (layers, 0)) (Suc 1)
          \<lparr>net = [Dense [[2]] [1] Linear], loss = MSE, track_accuracy = False\<rparr>
          [[1]] [[3]] [[1]] [[3]])) [[1]] [[3]])"
proof -
  have i: "(1::nat) < 2" by simp
  have v: "test_function \<lparr>net = [Dense [[2]] [1] Linear], loss = MSE, track_accuracy = False\<rparr>
             [[1]] [[3]] = [0]"
    by (simp add: test_function_def Model_predict_def dense_def activate_def
        mean_squared_error_def np_mean_def)
  from evaluate_pure
    [of "\<lparr>net = [Dense [[2]] [1] Linear], loss = MSE, track_accuracy = False\<rparr>"
        "[[1]]" "[[3]]" 2 "\<lambda>layers X Y. (layers, 0)" "[[1]]" "[[3]]" "[[1]]" "[[3]]"] i v
  show ?thesis by (simp del: Model_fit.simps)
qed

subsection \<open>\<^verbatim>\<open>argmax\<close>\<close>

lemma argmax_example: "argmax [1 / 10, 7 / 10, 7 / 10, 2 / 10 :: real] = Inr 1"
  by (simp add: argmax_def)

lemma argmax_scan_inv:
  assumes "max_ind < length pre" and "mp = pre ! max_ind"
    and "\<forall>j<length pre. pre ! j \<le> mp" and "\<forall>j<max_ind. pre ! j < mp"
  shows "argmax_scan ip (length pre) mp max_ind < length (pre @ ip) \<and>
         (\<forall>j<length (pre @ ip). (pre @ ip) ! j \<le> (pre @ ip) ! argmax_scan ip (length pre) mp max_ind) \<and>
         (\<forall>j<argmax_scan ip (length pre) mp max_ind.
             (pre @ ip) ! j < (pre @ ip) ! argmax_scan ip (length pre) mp max_ind)"
  using assms
proof (induction ip arbitrary: pre mp max_ind)
  case Nil
  then show ?case by simp
next
  case (Cons v ip)
  show ?case
  proof (cases "mp < v")
    case True
    have a: "length pre < length (pre @ [v])" by simp
    have b: "v = (pre @ [v]) ! length pre" by simp
    have c: "\<forall>j<length (pre @ [v]). (pre @ [v]) ! j \<le> v"
      using Cons.prems(3) True by (auto simp: nth_append less_Suc_eq)
    have d: "\<forall>j<length pre. (pre @ [v]) ! j < v"
      using Cons.prems(3) True by (auto simp: nth_append)
    from Cons.IH [OF a b c d] True show ?thesis by simp
  next
    case False
    have a: "max_ind < length (pre @ [v])" using Cons.prems(1) by simp
    have b: "mp = (pre @ [v]) ! max_ind" using Cons.prems(1,2) by (simp add: nth_append)
    have c: "\<forall>j<length (pre @ [v]). (pre @ [v]) ! j \<le> mp"
      using Cons.prems(3) False by (auto simp: nth_append less_Suc_eq)
    have d: "\<forall>j<max_ind. (pre @ [v]) ! j < mp"
      using Cons.prems(1,4) by (auto simp: nth_append)
    from Cons.IH [OF a b c d] False show ?thesis by simp
  qed
qed

text \<open>
  Claim C8. On every non-empty row \<open>argmax\<close> returns an index of a largest element, and
  every element before that index is strictly smaller: among the indices that attain the
  maximum it is the lowest.
\<close>

theorem argmax_first_maximum:
  assumes "row \<noteq> []"
  shows "\<exists>i. argmax row = Inr i \<and> i < length row \<and>
           (\<forall>j<length row. row ! j \<le> row ! i) \<and> (\<forall>j<i. row ! j < row ! i)"
proof -
  from assms obtain v vs where row: "row = v # vs" by (cases row) auto
  have "argmax_scan vs (length [v]) v 0 < length ([v] @ vs) \<and>
         (\<forall>j<length ([v] @ vs). ([v] @ vs) ! j \<le> ([v] @ vs) ! argmax_scan vs (length [v]) v 0) \<and>
         (\<forall>j<argmax_scan vs (length [v]) v 0.
             ([v] @ vs) ! j < ([v] @ vs) ! argmax_scan vs (length [v]) v 0)"
    by (rule argmax_scan_inv) simp_all
  then show ?thesis by (simp add: row argmax_def)
qed

theorem argmax_first_maximum_witness:
  "[1 / 10, 7 / 10, 7 / 10, 2 / 10 :: real] \<noteq> [] \<and>
   (\<exists>i. argmax [1 / 10, 7 / 10, 7 / 10, 2 / 10 :: real] = Inr i \<and>
        i < length [1 / 10, 7 / 10, 7 / 10, 2 / 10 :: real] \<and>
        (\<forall>j<length [1 / 10, 7 / 10, 7 / 10, 2 / 10 :: real].
            [1 / 10, 7 / 10, 7 / 10, 2 / 10 :: real] ! j \<le> [1 / 10, 7 / 10, 7 / 10, 2 / 10] ! i) \<and>
        (\<forall>j<i. [1 / 10, 7 / 10, 7 / 10, 2 / 10 :: real] ! j < [1 / 10, 7 / 10, 7 / 10, 2 / 10] ! i))"
proof -
  have a: "[1 / 10, 7 / 10, 7 / 10, 2 / 10 :: real] \<noteq> []" by simp
  from argmax_first_maximum [OF a] a show ?thesis by blast
qed

subsection \<open>The confusion matrix\<close>

lemma square_iff: "square n C \<longleftrightarrow> length C = n \<and> (\<forall>i<n. length (C ! i) = n)"
  by (auto simp: square_def list_all_length)

lemma square_add_at: "square n C \<Longrightarrow> square n (add_at C a b)"
proof (cases "a < length C")
  case True
  assume "square n C"
  with True show ?thesis by (auto simp: square_iff add_at_def nth_list_update)
next
  case False
  assume "square n C"
  with False show ?thesis by (simp add: square_iff add_at_def)
qed

lemma add_at_nth:
  assumes "square n C" and "a < n" and "b < n" and "i < n" and "j < n"
  shows "add_at C a b ! i ! j = C ! i ! j + (if i = a \<and> j = b then 1 else 0)"
  using assms by (auto simp: square_iff add_at_def nth_list_update)

lemma add_at_row_sum:
  assumes "square n C" and "a < n" and "b < n" and "i < n"
  shows "sum_list (add_at C a b ! i) = sum_list (C ! i) + (if i = a then 1 else 0)"
proof (cases "i = a")
  case True
  have "b < length (C ! a)" using assms by (simp add: square_iff)
  then have "sum_list ((C ! a)[b := C ! a ! b + 1]) = sum_list (C ! a) + 1"
    by (simp add: sum_list_update)
  with True assms show ?thesis by (simp add: square_iff add_at_def)
next
  case False
  with assms show ?thesis by (simp add: square_iff add_at_def)
qed

lemma trace_sum: "trace C = (\<Sum>i<length C. C ! i ! i)"
  by (simp add: trace_def sum_list_sum_nth atLeast0LessThan)

lemma add_at_trace:
  assumes "square n C" and "a < n" and "b < n"
  shows "trace (add_at C a b) = trace C + (if a = b then 1 else 0)"
proof -
  have len: "length (add_at C a b) = n" "length C = n"
    using assms(1) square_add_at [OF assms(1), of a b] by (simp_all add: square_iff)
  have "trace (add_at C a b) = (\<Sum>i<n. add_at C a b ! i ! i)"
    by (simp add: trace_sum len)
  also have "\<dots> = (\<Sum>i<n. C ! i ! i + (if i = a \<and> i = b then 1 else 0))"
    by (rule sum.cong) (simp_all add: add_at_nth [OF assms])
  also have "\<dots> = (\<Sum>i<n. C ! i ! i) + (\<Sum>i<n. if i = a \<and> i = b then 1 else 0)"
    by (simp add: sum.distrib)
  also have "(\<Sum>i<n. if i = a \<and> i = b then 1 else 0) = (if a = b then 1 else (0::nat))"
  proof (cases "a = b")
    case True
    then have "(\<Sum>i<n. if i = a \<and> i = b then 1 else 0) = (\<Sum>i<n. if i = a then 1 else (0::nat))"
      by simp
    also have "\<dots> = 1" using assms(2) by (simp add: sum.delta')
    finally show ?thesis using True by simp
  next
    case False
    then have "\<And>i. (if i = a \<and> i = b then 1 else (0::nat)) = 0" by auto
    then show ?thesis using False by simp
  qed
  finally show ?thesis by (simp add: trace_sum len)
qed

text \<open>What the accumulation loop leaves in the matrix.\<close>

lemma accumulate_inv:
  assumes "square n C" and "\<forall>t i. ind t = Some i \<longrightarrow> i < n"
  shows "square n (accumulate ind rows C)"
    and "\<forall>i<n. \<forall>j<n. accumulate ind rows C ! i ! j =
            C ! i ! j + length (filter (\<lambda>(t, p). ind t = Some i \<and> ind p = Some j) rows)"
    and "\<forall>i<n. sum_list (accumulate ind rows C ! i) =
            sum_list (C ! i) + length (filter (\<lambda>(t, p). ind t = Some i \<and> ind p \<noteq> None) rows)"
    and "trace (accumulate ind rows C) =
            trace C + length (filter (\<lambda>(t, p). ind t \<noteq> None \<and> ind t = ind p) rows)"
  using assms(1)
proof (induction rows arbitrary: C)
  case Nil
  {
    case 1 then show ?case by simp
  next
    case 2 then show ?case by simp
  next
    case 3 then show ?case by simp
  next
    case 4 then show ?case by simp
  }
next
  case (Cons r rows)
  obtain t p where r: "r = (t, p)" by (cases r)
  {
    case 1
    show ?case
    proof (cases "ind t")
      case None
      with Cons.IH(1) [OF 1] r show ?thesis by simp
    next
      case (Some a)
      show ?thesis
      proof (cases "ind p")
        case None
        with Cons.IH(1) [OF 1] r Some show ?thesis by simp
      next
        case (Some b)
        from Cons.IH(1) [OF square_add_at [OF 1, of a b]] r \<open>ind t = Some a\<close> Some
        show ?thesis by simp
      qed
    qed
  next
    case 2
    show ?case
    proof (cases "ind t")
      case None
      with Cons.IH(2) [OF 2] r show ?thesis by simp
    next
      case (Some a)
      show ?thesis
      proof (cases "ind p")
        case None
        with Cons.IH(2) [OF 2] r Some show ?thesis by simp
      next
        case (Some b)
        from assms(2) \<open>ind t = Some a\<close> Some have ab: "a < n" "b < n" by blast+
        from Cons.IH(2) [OF square_add_at [OF 2, of a b]] r \<open>ind t = Some a\<close> Some
        show ?thesis by (auto simp: add_at_nth [OF 2 ab])
      qed
    qed
  next
    case 3
    show ?case
    proof (cases "ind t")
      case None
      with Cons.IH(3) [OF 3] r show ?thesis by simp
    next
      case (Some a)
      show ?thesis
      proof (cases "ind p")
        case None
        with Cons.IH(3) [OF 3] r Some show ?thesis by simp
      next
        case (Some b)
        from assms(2) \<open>ind t = Some a\<close> Some have ab: "a < n" "b < n" by blast+
        from Cons.IH(3) [OF square_add_at [OF 3, of a b]] r \<open>ind t = Some a\<close> Some
        show ?thesis by (auto simp: add_at_row_sum [OF 3 ab])
      qed
    qed
  next
    case 4
    show ?case
    proof (cases "ind t")
      case None
      with Cons.IH(4) [OF 4] r show ?thesis by simp
    next
      case (Some a)
      show ?thesis
      proof (cases "ind p")
        case None
        with Cons.IH(4) [OF 4] r Some show ?thesis by simp
      next
        case (Some b)
        from assms(2) \<open>ind t = Some a\<close> Some have ab: "a < n" "b < n" by blast+
        from Cons.IH(4) [OF square_add_at [OF 4, of a b]] r \<open>ind t = Some a\<close> Some
        show ?thesis by (auto simp: add_at_trace [OF 4 ab])
      qed
    qed
  }
qed

lemma class_index_Some: "class_index k t = Some i \<longleftrightarrow> t = i \<and> i < k"
  by (auto simp: class_index_def)

lemma count_zip_fst:
  "length xs = length ys \<Longrightarrow>
     length (filter (\<lambda>(t, p). t = c) (zip xs ys)) = count_list xs c"
  by (induction xs ys rule: list_induct2) auto

lemma count_list_pairs:
  "length (filter (\<lambda>(t, p). t = a \<and> p = b) rows) = count_list rows (a, b)"
  by (induction rows) auto

lemma zip_mem: "(t, p) \<in> set (zip xs ys) \<Longrightarrow> t \<in> set xs \<and> p \<in> set ys"
  by (auto dest: set_zip_leftD set_zip_rightD)

lemma zeros_square: "square n (replicate n (replicate n 0))"
  by (simp add: square_iff)

lemma zeros_trace: "trace (replicate n (replicate n 0)) = 0"
  by (simp add: trace_def)

text \<open>
  The entries count the pairs of classes. The sum of a row counts a true class when every
  predicted label is a class, and the trace counts the agreeing rows when every true
  label is a class.
\<close>

lemma confusion_matrix_entries:
  assumes len: "length y_true = length y_pred"
  shows "\<exists>C. confusion_matrix k y_true y_pred = Inr C \<and> square k C \<and>
           (\<forall>i<k. \<forall>j<k. C ! i ! j = count_list (zip y_true y_pred) (i, j)) \<and>
           (list_all (\<lambda>c. c < k) y_pred \<longrightarrow>
              (\<forall>i<k. sum_list (C ! i) = count_list y_true i)) \<and>
           (list_all (\<lambda>c. c < k) y_true \<longrightarrow>
              trace C = length (filter (\<lambda>(t, p). t = p) (zip y_true y_pred)))"
proof -
  define ind where "ind = class_index k"
  define rows where "rows = zip y_true y_pred"
  define C where "C = accumulate ind rows (replicate k (replicate k 0))"
  have cm: "confusion_matrix k y_true y_pred = Inr C"
    using len by (simp add: confusion_matrix_def C_def ind_def rows_def)
  have bound: "\<forall>t i. ind t = Some i \<longrightarrow> i < k"
    by (simp add: ind_def class_index_Some)
  note inv = accumulate_inv [OF zeros_square bound, of rows, folded C_def]
  have e: "C ! i ! j = count_list rows (i, j)" if "i < k" "j < k" for i j
  proof -
    have "filter (\<lambda>(t, p). ind t = Some i \<and> ind p = Some j) rows =
          filter (\<lambda>(t, p). t = i \<and> p = j) rows"
      using that by (auto simp: ind_def class_index_Some intro!: filter_cong)
    with inv(2) that show ?thesis by (simp add: count_list_pairs)
  qed
  have r: "sum_list (C ! i) = count_list y_true i"
    if "i < k" and pred: "list_all (\<lambda>c. c < k) y_pred" for i
  proof -
    have "filter (\<lambda>(t, p). ind t = Some i \<and> ind p \<noteq> None) rows =
          filter (\<lambda>(t, p). t = i) rows"
    proof (rule filter_cong [OF refl])
      fix x assume x: "x \<in> set rows"
      obtain t p where tp: "x = (t, p)" by (cases x)
      from x tp have "p \<in> set y_pred" using zip_mem [of t p y_true y_pred] by (simp add: rows_def)
      with pred have "p < k" by (simp add: list_all_iff)
      then have "ind p \<noteq> None" by (simp add: ind_def class_index_def)
      moreover have "ind t = Some i \<longleftrightarrow> t = i"
        using that(1) by (simp add: ind_def class_index_Some)
      ultimately show "(case x of (t, p) \<Rightarrow> ind t = Some i \<and> ind p \<noteq> None) =
                       (case x of (t, p) \<Rightarrow> t = i)"
        by (simp add: tp)
    qed
    with inv(3) that(1) have "sum_list (C ! i) = length (filter (\<lambda>(t, p). t = i) rows)"
      by simp
    with count_zip_fst [OF len] show ?thesis by (simp add: rows_def)
  qed
  have t: "trace C = length (filter (\<lambda>(t, p). t = p) rows)"
    if true: "list_all (\<lambda>c. c < k) y_true"
  proof -
    have "filter (\<lambda>(t, p). ind t \<noteq> None \<and> ind t = ind p) rows = filter (\<lambda>(t, p). t = p) rows"
    proof (rule filter_cong [OF refl])
      fix x assume x: "x \<in> set rows"
      obtain t p where tp: "x = (t, p)" by (cases x)
      from x tp have "t \<in> set y_true" using zip_mem [of t p y_true y_pred] by (simp add: rows_def)
      with true have "t < k" by (simp add: list_all_iff)
      then have "ind t = Some t" by (simp add: ind_def class_index_def)
      moreover have "Some t = ind p \<longleftrightarrow> t = p"
        using \<open>t < k\<close> by (auto simp: ind_def class_index_def)
      ultimately show "(case x of (t, p) \<Rightarrow> ind t \<noteq> None \<and> ind t = ind p) =
                       (case x of (t, p) \<Rightarrow> t = p)"
        by (simp add: tp)
    qed
    with inv(4) show ?thesis by (simp add: zeros_trace)
  qed
  from cm inv(1) e r t show ?thesis unfolding rows_def by blast
qed

text \<open>
  Claim C3. For \<open>k\<close> classes and lists of true and predicted labels of equal length,
  \<open>confusion_matrix\<close> is a \<open>k\<close> by \<open>k\<close> matrix whose entry \<open>[i][j]\<close> counts the rows
  with true class \<open>i\<close> and predicted class \<open>j\<close>. Hence the sum of row \<open>i\<close> is the number
  of occurrences of the true label \<open>i\<close>, and the trace divided by the number of rows is
  the accuracy, the fraction of rows where the prediction equals the true label.
\<close>

theorem confusion_matrix_counts:
  assumes "length y_true = length y_pred" and "y_true \<noteq> []"
    and "list_all (\<lambda>c. c < k) y_true" and "list_all (\<lambda>c. c < k) y_pred"
  shows "\<exists>C. confusion_matrix k y_true y_pred = Inr C \<and> square k C \<and>
           (\<forall>i<k. \<forall>j<k. C ! i ! j = count_list (zip y_true y_pred) (i, j)) \<and>
           (\<forall>i<k. sum_list (C ! i) = count_list y_true i) \<and>
           real (trace C) / real (length y_true) = accuracy y_true y_pred"
proof -
  from confusion_matrix_entries [OF assms(1), of k] assms(3,4) obtain C
    where C: "confusion_matrix k y_true y_pred = Inr C"
      and sq: "square k C"
      and e: "\<forall>i<k. \<forall>j<k. C ! i ! j = count_list (zip y_true y_pred) (i, j)"
      and r: "\<forall>i<k. sum_list (C ! i) = count_list y_true i"
      and t: "trace C = length (filter (\<lambda>(t, p). t = p) (zip y_true y_pred))"
    by blast
  have "real (trace C) / real (length y_true) = accuracy y_true y_pred"
    by (simp add: t accuracy_def)
  with C sq e r show ?thesis by blast
qed

lemma confusion_matrix_example:
  "confusion_matrix 3 [0, 2, 2, 1] [0, 2, 1, 1] = Inr [[1, 0, 0], [0, 1, 0], [0, 1, 1]]"
  by code_simp

text \<open>A class without a row of data has a row and a column of zeros.\<close>

lemma confusion_matrix_absent_class:
  "confusion_matrix 3 [0, 2] [0, 2] = Inr [[1, 0, 0], [0, 0, 0], [0, 0, 1]]"
  by code_simp

theorem confusion_matrix_counts_witness:
  "length [0, 2, 2, 1 :: nat] = length [0, 2, 1, 1 :: nat] \<and> [0, 2, 2, 1 :: nat] \<noteq> [] \<and>
   list_all (\<lambda>c. c < 3) [0, 2, 2, 1 :: nat] \<and> list_all (\<lambda>c. c < 3) [0, 2, 1, 1 :: nat] \<and>
   (\<exists>C. confusion_matrix 3 [0, 2, 2, 1] [0, 2, 1, 1] = Inr C \<and> square 3 C \<and>
           (\<forall>i<3. \<forall>j<3. C ! i ! j = count_list (zip [0, 2, 2, 1] [0, 2, 1, 1]) (i, j)) \<and>
           (\<forall>i<3. sum_list (C ! i) = count_list [0, 2, 2, 1] i) \<and>
           real (trace C) / real (length [0, 2, 2, 1 :: nat]) = accuracy [0, 2, 2, 1] [0, 2, 1, 1])"
proof -
  have a: "length [0, 2, 2, 1 :: nat] = length [0, 2, 1, 1 :: nat]"
    and b: "[0, 2, 2, 1 :: nat] \<noteq> []"
    and c: "list_all (\<lambda>c. c < 3) [0, 2, 2, 1 :: nat]"
    and d: "list_all (\<lambda>c. c < 3) [0, 2, 1, 1 :: nat]"
    by simp_all
  from confusion_matrix_counts [OF a b c d] a b c d show ?thesis by blast
qed

subsection \<open>The final cell of notebook 2\<close>

text \<open>
  The accuracy that \<open>evaluate\<close> reports on one-hot targets is the accuracy of the two
  label lists that \<open>argmax\<close> extracts.
\<close>

lemma argmax_rows_length: "argmax_rows M = Inr js \<Longrightarrow> length js = length M"
  by (induction M arbitrary: js) (auto split: sum.splits)

lemma argmax_rows_total:
  "list_all (\<lambda>r. r \<noteq> []) M \<Longrightarrow> \<exists>js. argmax_rows M = Inr js"
proof (induction M)
  case Nil
  then show ?case by simp
next
  case (Cons r M)
  then obtain js where "argmax_rows M = Inr js" by auto
  moreover from Cons.prems obtain v vs where "r = v # vs" by (cases r) auto
  ultimately show ?case by (simp add: argmax_def)
qed

lemma argmax_rows_agree:
  "argmax_rows Y = Inr yt \<Longrightarrow> argmax_rows P = Inr yp \<Longrightarrow>
     sum_list (map (\<lambda>(y, p). if argmax y = argmax p then 1 else 0) (zip Y P)) =
     real (length (filter (\<lambda>(t, p). t = p) (zip yt yp)))"
proof (induction Y arbitrary: P yt yp)
  case Nil
  then show ?case by simp
next
  case (Cons y Y)
  show ?case
  proof (cases P)
    case Nil
    with Cons.prems show ?thesis by simp
  next
    case (Cons p P')
    from Cons.prems(1) obtain i yt' where y: "argmax y = Inr i" "argmax_rows Y = Inr yt'" "yt = i # yt'"
      by (auto split: sum.splits)
    from Cons.prems(2) Cons obtain j yp' where p: "argmax p = Inr j" "argmax_rows P' = Inr yp'" "yp = j # yp'"
      by (auto split: sum.splits)
    from Cons.IH [OF y(2) p(2)] show ?thesis by (simp add: Cons y p)
  qed
qed

lemma categorical_accuracy_labels:
  assumes "argmax_rows Y = Inr yt" and "argmax_rows P = Inr yp" and "length P = length Y"
  shows "categorical_accuracy Y P = accuracy yt yp"
proof -
  from assms(1) have "length yt = length Y" by (rule argmax_rows_length)
  then show ?thesis
    by (simp add: categorical_accuracy_def accuracy_def np_mean_def
        argmax_rows_agree [OF assms(1,2)] assms(3))
qed

lemma argmax_less: "argmax r = Inr i \<Longrightarrow> i < length r"
proof (cases r)
  case Nil
  assume "argmax r = Inr i"
  with Nil show ?thesis by (simp add: argmax_def)
next
  case (Cons v vs)
  assume a: "argmax r = Inr i"
  have "argmax_scan vs (length [v]) v 0 < length ([v] @ vs)"
    using argmax_scan_inv [of 0 "[v]" v vs] by simp
  with a Cons show ?thesis by (simp add: argmax_def)
qed

lemma argmax_rows_bound:
  "argmax_rows M = Inr js \<Longrightarrow> list_all (\<lambda>r. length r \<le> k) M \<Longrightarrow> list_all (\<lambda>c. c < k) js"
proof (induction M arbitrary: js)
  case Nil
  then show ?case by simp
next
  case (Cons r M)
  from Cons.prems(1) obtain i js' where r: "argmax r = Inr i" "argmax_rows M = Inr js'" "js = i # js'"
    by (auto split: sum.splits)
  from argmax_less [OF r(1)] Cons.prems(2) have "i < k" by simp
  moreover from Cons.IH [OF r(2)] Cons.prems(2) have "list_all (\<lambda>c. c < k) js'" by simp
  ultimately show ?case by (simp add: r(3))
qed

text \<open>
  When the model tracks the accuracy and every row of targets and of predictions has at
  least one and at most ten entries, the cell succeeds, leaves the model as it was, and
  the trace of its confusion matrix divided by the number of test rows is the accuracy
  it reports.
\<close>

lemma final_evaluation_accuracy:
  assumes "track_accuracy m" and "length Xs = length Ys"
    and "list_all (\<lambda>r. r \<noteq> []) Ys" and "list_all (\<lambda>r. r \<noteq> []) (Model_predict m Xs)"
    and "list_all (\<lambda>r. length r \<le> length class_names) Ys"
    and "list_all (\<lambda>r. length r \<le> length class_names) (Model_predict m Xs)"
  shows "\<exists>ev. final_evaluation m Xs Ys = Inr ev \<and> ev_model ev = m \<and>
           [ev_loss ev, ev_acc ev] = fst (Model_evaluate m Xs Ys) \<and>
           confusion_matrix (length class_names) (projr (argmax_rows Ys)) (ev_pred ev) =
             Inr (ev_matrix ev) \<and>
           real (trace (ev_matrix ev)) / real (length Ys) = ev_acc ev"
proof -
  let ?P = "Model_predict m Xs"
  from argmax_rows_total [OF assms(3)] obtain yt where yt: "argmax_rows Ys = Inr yt" by blast
  from argmax_rows_total [OF assms(4)] obtain yp where yp: "argmax_rows ?P = Inr yp" by blast
  have lP: "length ?P = length Ys" using assms(2) by (simp add: Model_predict_def)
  have lt: "length yt = length Ys" and lp: "length yp = length Ys"
    using argmax_rows_length [OF yt] argmax_rows_length [OF yp] lP by simp_all
  then have len: "length yt = length yp" by simp
  have bt: "list_all (\<lambda>c. c < length class_names) yt"
    by (rule argmax_rows_bound [OF yt assms(5)])
  from confusion_matrix_entries [OF len, of "length class_names"] bt obtain C
    where C: "confusion_matrix (length class_names) yt yp = Inr C"
      and t: "trace C = length (filter (\<lambda>(t, p). t = p) (zip yt yp))"
    by blast
  define l where "l = (case loss m of
                 MSE \<Rightarrow> mean_squared_error Ys ?P
               | CategoricalCrossentropy \<Rightarrow> categorical_crossentropy Ys ?P)"
  have sc: "Model_evaluate m Xs Ys = ([l, categorical_accuracy Ys ?P], m)"
    using assms(1) by (simp add: Model_evaluate_def test_function_def Let_def l_def)
  have acc: "categorical_accuracy Ys ?P = accuracy yt yp"
    by (rule categorical_accuracy_labels [OF yt yp lP])
  have fe: "final_evaluation m Xs Ys =
      Inr \<lparr>ev_loss = l, ev_acc = accuracy yt yp, ev_pred = yp, ev_matrix = C, ev_model = m\<rparr>"
    by (simp add: final_evaluation_def sc acc yt yp C)
  have "real (trace C) / real (length Ys) = accuracy yt yp"
    by (simp add: t accuracy_def lt)
  with fe sc acc yt C show ?thesis by simp
qed

end
